theory Spec2Isabelle
  imports Complex_Main
begin

section \<open>Birthday postcard: the frame-driven simulation and control layer\<close>

text \<open>
  The development embeds four parts of the application: the gesture classifier of
  the \<open>HandGesture\<close> component, the flight of a \<open>SingleWish\<close> projectile, the per-frame
  integrator of \<open>ConfettiExplosion\<close>, and the event handlers of \<open>App\<close>.
  JavaScript numbers (and the \<open>Float32Array\<close> cells of the confetti pool) are idealised
  as real numbers: rounding, infinities and NaN are outside the model.
\<close>

subsection \<open>Wish flight: easing\<close>

text \<open>
  \<^verbatim>\<open>const ease = t < 0.5 ? 4 * t * t * t : 1 - Math.pow(-2 * t + 2, 3) / 2;\<close>
\<close>

definition ease :: "real \<Rightarrow> real" where
  "ease t = (if t < 0.5 then 4 * t * t * t else 1 - (-2 * t + 2) ^ 3 / 2)"

subsection \<open>Gesture classifier\<close>

record landmark =
  lm_x :: real
  lm_y :: real
  lm_z :: real

text \<open>Reading a field of \<open>undefined\<close> (an index beyond the landmark array) throws.\<close>

datatype error = TypeError

definition lmAt :: "'a list \<Rightarrow> nat \<Rightarrow> error + 'a" where
  "lmAt xs i = (if i < length xs then Inr (xs ! i) else Inl TypeError)"

text \<open>
  \<^verbatim>\<open>Math.sqrt(Math.pow(p.x - wrist.x, 2) + Math.pow(p.y - wrist.y, 2) + Math.pow(p.z - wrist.z, 2))\<close>
\<close>

definition dist3 :: "landmark \<Rightarrow> landmark \<Rightarrow> real" where
  "dist3 p wrist =
     sqrt ((lm_x p - lm_x wrist) ^ 2 + (lm_y p - lm_y wrist) ^ 2 + (lm_z p - lm_z wrist) ^ 2)"

definition tips :: "nat list" where
  "tips = [4, 8, 12, 16, 20]"

text \<open>The \<open>tips.forEach\<close> loop, accumulating \<open>totalTipDist\<close>.\<close>

fun sumTipDist :: "landmark list \<Rightarrow> landmark \<Rightarrow> nat list \<Rightarrow> real \<Rightarrow> error + real" where
  "sumTipDist landmarks wrist [] totalTipDist = Inr totalTipDist"
| "sumTipDist landmarks wrist (idx # rest) totalTipDist =
     (case lmAt landmarks idx of
        Inl e \<Rightarrow> Inl e
      | Inr tip \<Rightarrow> sumTipDist landmarks wrist rest (totalTipDist + dist3 tip wrist))"

definition closedRatio :: real where
  "closedRatio = 1.3"

definition openRatio :: real where
  "openRatio = 2.2"

text \<open>The threshold chain that maps the ratio to the target factor.\<close>

definition ratioTarget :: "real \<Rightarrow> real" where
  "ratioTarget ratio =
     (if ratio < closedRatio then - 1.0
      else if ratio > openRatio then 1.0
      else ((ratio - closedRatio) / (openRatio - closedRatio)) * 2 - 1)"

text \<open>
  The ratio of one hand: \<open>avgTipDist / (scaleRef || 1)\<close>. The operator \<open>||\<close> replaces
  a zero \<open>scaleRef\<close> by 1.
\<close>

definition handRatio :: "landmark list \<Rightarrow> error + real" where
  "handRatio landmarks =
     (case lmAt landmarks 0 of
        Inl e \<Rightarrow> Inl e
      | Inr wrist \<Rightarrow>
          (case lmAt landmarks 9 of
             Inl e \<Rightarrow> Inl e
           | Inr middleKnuckle \<Rightarrow>
               (let scaleRef = dist3 middleKnuckle wrist in
                case sumTipDist landmarks wrist tips 0 of
                  Inl e \<Rightarrow> Inl e
                | Inr totalTipDist \<Rightarrow>
                    (let avgTipDist = totalTipDist / 5 in
                     Inr (avgTipDist / (if scaleRef = 0 then 1 else scaleRef))))))"

text \<open>
  \<open>results.landmarks\<close> is the list of detected hands, or absent. Only the first hand
  is classified; with no hand the target is 0.
\<close>

definition targetFactor :: "landmark list list option \<Rightarrow> error + real" where
  "targetFactor results_landmarks =
     (case results_landmarks of
        None \<Rightarrow> Inr 0
      | Some hands \<Rightarrow>
          if length hands > 0 then
            (case handRatio (hands ! 0) of
               Inl e \<Rightarrow> Inl e
             | Inr ratio \<Rightarrow> Inr (ratioTarget ratio))
          else Inr 0)"

text \<open>\<^verbatim>\<open>currentFactor.current + (targetFactor - currentFactor.current) * 0.15\<close>\<close>

definition smooth :: "real \<Rightarrow> real \<Rightarrow> real" where
  "smooth currentFactor target = currentFactor + (target - currentFactor) * 0.15"

text \<open>\<^verbatim>\<open>if (Math.abs(currentFactor.current) < 0.1) currentFactor.current = 0;\<close>\<close>

definition deadzone :: "real \<Rightarrow> real" where
  "deadzone v = (if \<bar>v\<bar> < 0.1 then 0 else v)"

record gesture =
  lastVideoTime :: real
  currentFactor :: real

text \<open>
  One run of \<open>predictWebcam\<close> with a video and a landmarker present. The result is the
  state of the two refs and either the error thrown or the value passed to
  \<open>onGestureChange\<close> (none when the video frame is the one already processed).
  \<open>lastVideoTime\<close> is written before the detection, so it is updated even when the
  classification throws.
\<close>

definition predictWebcam ::
  "real \<Rightarrow> landmark list list option \<Rightarrow> gesture \<Rightarrow> gesture \<times> (error + real option)" where
  "predictWebcam video_currentTime results_landmarks st =
     (if video_currentTime \<noteq> lastVideoTime st then
        (let st1 = st\<lparr>lastVideoTime := video_currentTime\<rparr> in
         case targetFactor results_landmarks of
           Inl e \<Rightarrow> (st1, Inl e)
         | Inr target \<Rightarrow>
             (let v = deadzone (smooth (currentFactor st1) target) in
              (st1\<lparr>currentFactor := v\<rparr>, Inr (Some v))))
      else (st, Inr None))"

text \<open>The signal after \<open>n\<close> classifier updates under a target held constant.\<close>

primrec heldSignal :: "real \<Rightarrow> nat \<Rightarrow> real \<Rightarrow> real" where
  "heldSignal target 0 s = s"
| "heldSignal target (Suc n) s = deadzone (smooth (heldSignal target n s) target)"

text \<open>
  The quantities of the specification, for a hand of 21 landmarks: the scale reference
  is the distance from the wrist (landmark 0) to the middle knuckle (landmark 9), and
  the mean tip distance averages the distances from the wrist to the five fingertips.
\<close>

definition scaleReference :: "landmark list \<Rightarrow> real" where
  "scaleReference h = dist3 (h ! 9) (h ! 0)"

definition meanTipDistance :: "landmark list \<Rightarrow> real" where
  "meanTipDistance h =
     (dist3 (h ! 4) (h ! 0) + dist3 (h ! 8) (h ! 0) + dist3 (h ! 12) (h ! 0)
      + dist3 (h ! 16) (h ! 0) + dist3 (h ! 20) (h ! 0)) / 5"

definition specRatio :: "landmark list \<Rightarrow> real" where
  "specRatio h =
     meanTipDistance h / (if scaleReference h = 0 then 1 else scaleReference h)"

text \<open>
  The target factor in the words of the specification: \<open>-1\<close> up to the closed ratio
  1.3, \<open>+1\<close> from the open ratio 2.2 on, and the linear interpolation in between.
\<close>

definition specTarget :: "real \<Rightarrow> real" where
  "specTarget ratio =
     (if ratio \<le> 1.3 then - 1
      else if ratio \<ge> 2.2 then 1
      else ((ratio - 1.3) / (2.2 - 1.3)) * 2 - 1)"

text \<open>A sample hand on the x axis: wrist at 0, middle knuckle at 1, fingertips at 2.\<close>

definition pt :: "real \<Rightarrow> landmark" where
  "pt a = \<lparr>lm_x = a, lm_y = 0, lm_z = 0\<rparr>"

definition sampleHand :: "landmark list" where
  "sampleHand = [pt 0, pt 0, pt 0, pt 0, pt 2, pt 0, pt 0, pt 0, pt 2, pt 1, pt 0,
                 pt 0, pt 2, pt 0, pt 0, pt 0, pt 2, pt 0, pt 0, pt 0, pt 2]"

subsection \<open>Wish projectile\<close>

text \<open>
  The refs and state that the frame callback of \<open>SingleWish\<close> reads and writes:
  \<open>progress\<close>, \<open>exploded\<close>, \<open>finished\<close>, the scale of the group (\<open>scale.x\<close>; the
  three components stay equal) and whether \<open>groupRef.current\<close> is set. The position and
  rotation written during the flight are read by no branch and are left out.
\<close>

record singleWish =
  progress :: real
  exploded :: bool
  finished :: bool
  scale_x :: real
  groupRef :: bool

definition spawnWish :: singleWish where
  "spawnWish = \<lparr>progress = 0, exploded = False, finished = False, scale_x = 1, groupRef = True\<rparr>"

text \<open>One frame; the flag tells whether \<open>onImpact\<close> was called.\<close>

definition wishFrame :: "real \<Rightarrow> singleWish \<Rightarrow> singleWish \<times> bool" where
  "wishFrame delta w =
     (if finished w \<or> \<not> groupRef w then (w, False)
      else if progress w < 1 then (w\<lparr>progress := progress w + delta * 0.8\<rparr>, False)
      else if \<not> exploded w then (w\<lparr>exploded := True\<rparr>, True)
      else
        (let w' = w\<lparr>scale_x := scale_x w * 1.1\<rparr> in
         (if scale_x w' > 5 then w'\<lparr>finished := True\<rparr> else w', False)))"

text \<open>
  A run over the frame deltas the projectile receives: the state after the run, the
  state at the start of every frame, and the impact flag of every frame.
\<close>

fun wishAfter :: "real list \<Rightarrow> singleWish \<Rightarrow> singleWish" where
  "wishAfter [] w = w"
| "wishAfter (delta # ds) w = wishAfter ds (fst (wishFrame delta w))"

fun wishBefore :: "real list \<Rightarrow> singleWish \<Rightarrow> singleWish list" where
  "wishBefore [] w = []"
| "wishBefore (delta # ds) w = w # wishBefore ds (fst (wishFrame delta w))"

fun impacts :: "real list \<Rightarrow> singleWish \<Rightarrow> bool list" where
  "impacts [] w = []"
| "impacts (delta # ds) w = snd (wishFrame delta w) # impacts ds (fst (wishFrame delta w))"

text \<open>
  A projectile in flight: mounted, not exploded, not finished.
\<close>

definition fresh :: "singleWish \<Rightarrow> bool" where
  "fresh w \<longleftrightarrow> \<not> exploded w \<and> \<not> finished w \<and> groupRef w"

subsection \<open>Confetti\<close>

text \<open>
  The four flat arrays of the pool, three cells per particle. A typed array ignores a
  write beyond its length, as a list update does; the properties below are stated for
  arrays of \<open>count * 3\<close> cells, where every access is in range.
\<close>

record confetti =
  positions :: "real list"
  velocities :: "real list"
  rotations :: "real list"
  rotationSpeeds :: "real list"

text \<open>The body of the loop for particle \<open>i\<close>, statement by statement.\<close>

definition updateParticle :: "real \<Rightarrow> nat \<Rightarrow> confetti \<Rightarrow> confetti" where
  "updateParticle dt i st =
     (let idx = i * 3;
          v0 = velocities st;
          v1 = v0[idx + 1 := v0 ! (idx + 1) - 15.0 * dt];
          v2 = v1[idx := v1 ! idx * 0.96];
          v3 = v2[idx + 1 := v2 ! (idx + 1) * 0.96];
          v4 = v3[idx + 2 := v3 ! (idx + 2) * 0.96];
          p0 = positions st;
          p1 = p0[idx := p0 ! idx + v4 ! idx * dt];
          p2 = p1[idx + 1 := p1 ! (idx + 1) + v4 ! (idx + 1) * dt];
          p3 = p2[idx + 2 := p2 ! (idx + 2) + v4 ! (idx + 2) * dt];
          w = rotationSpeeds st;
          r0 = rotations st;
          r1 = r0[idx := r0 ! idx + w ! idx * dt];
          r2 = r1[idx + 1 := r1 ! (idx + 1) + w ! (idx + 1) * dt];
          r3 = r2[idx + 2 := r2 ! (idx + 2) + w ! (idx + 2) * dt]
      in st\<lparr>positions := p3, velocities := v4, rotations := r3\<rparr>)"

text \<open>
  The frame callback: nothing without the mesh, otherwise the clamped step applied to
  the particles \<open>0, \<dots>, count - 1\<close> in turn. The source fixes \<open>count\<close> at 4000; here
  it is a parameter, so that the step can also be evaluated on a small pool.
\<close>

definition confettiFrame :: "bool \<Rightarrow> nat \<Rightarrow> real \<Rightarrow> confetti \<Rightarrow> confetti" where
  "confettiFrame meshRef count delta st =
     (if \<not> meshRef then st
      else (let dt = min delta 0.1 in fold (updateParticle dt) [0..<count] st))"

text \<open>Scale of the instance matrix: 0 below the floor, else 1.\<close>

definition cullScale :: "real \<Rightarrow> real" where
  "cullScale y = (if y < - 20 then 0.0 else 1.0)"

definition sized :: "nat \<Rightarrow> confetti \<Rightarrow> bool" where
  "sized count st \<longleftrightarrow>
     length (positions st) = count * 3 \<and> length (velocities st) = count * 3
     \<and> length (rotations st) = count * 3 \<and> length (rotationSpeeds st) = count * 3"

text \<open>What one step does to the three cells of a particle, from \<open>st\<close> to \<open>st'\<close>.\<close>

definition stepped :: "real \<Rightarrow> nat \<Rightarrow> confetti \<Rightarrow> confetti \<Rightarrow> bool" where
  "stepped dt i st st' \<longleftrightarrow>
     velocities st' ! (i * 3) = velocities st ! (i * 3) * 0.96
     \<and> velocities st' ! (i * 3 + 1) = (velocities st ! (i * 3 + 1) - 15 * dt) * 0.96
     \<and> velocities st' ! (i * 3 + 2) = velocities st ! (i * 3 + 2) * 0.96
     \<and> positions st' ! (i * 3) = positions st ! (i * 3) + velocities st' ! (i * 3) * dt
     \<and> positions st' ! (i * 3 + 1)
         = positions st ! (i * 3 + 1) + velocities st' ! (i * 3 + 1) * dt
     \<and> positions st' ! (i * 3 + 2)
         = positions st ! (i * 3 + 2) + velocities st' ! (i * 3 + 2) * dt
     \<and> rotations st' ! (i * 3) = rotations st ! (i * 3) + rotationSpeeds st ! (i * 3) * dt
     \<and> rotations st' ! (i * 3 + 1)
         = rotations st ! (i * 3 + 1) + rotationSpeeds st ! (i * 3 + 1) * dt
     \<and> rotations st' ! (i * 3 + 2)
         = rotations st ! (i * 3 + 2) + rotationSpeeds st ! (i * 3 + 2) * dt"

text \<open>Cells at or beyond a bound are the same in both states.\<close>

definition sameFrom :: "nat \<Rightarrow> confetti \<Rightarrow> confetti \<Rightarrow> bool" where
  "sameFrom b st st' \<longleftrightarrow>
     (\<forall>j\<ge>b. positions st' ! j = positions st ! j \<and> velocities st' ! j = velocities st ! j
        \<and> rotations st' ! j = rotations st ! j)"

text \<open>
  A pool of one particle.
\<close>

definition sampleConfetti :: confetti where
  "sampleConfetti =
     \<lparr>positions = [0, 2, 0], velocities = [1, 10, - 1], rotations = [0, 0, 0],
      rotationSpeeds = [1, 2, 3]\<rparr>"

subsection \<open>App: state and event handlers\<close>

text \<open>
  A JavaScript string is a sequence of UTF-16 code units. \<open>trim\<close> removes the white space
  and line terminators of ECMAScript from both ends.
\<close>

type_synonym jsstring = "nat list"

definition isWhiteSpace :: "nat \<Rightarrow> bool" where
  "isWhiteSpace c \<longleftrightarrow>
     c \<in> {9, 10, 11, 12, 13, 32, 160, 5760, 8232, 8233, 8239, 8287, 12288, 65279}
     \<or> (8192 \<le> c \<and> c \<le> 8202)"

definition trim :: "jsstring \<Rightarrow> jsstring" where
  "trim s = rev (dropWhile isWhiteSpace (rev (dropWhile isWhiteSpace s)))"

record Wish =
  wish_id :: nat
  wish_text :: jsstring

text \<open>
  The state of \<open>App\<close>: its five \<open>useState\<close> cells and the \<open>wishIdCounter\<close> ref, together
  with the clock in milliseconds and the due times of the pending \<open>setTimeout\<close> callbacks.
  Every callback is \<open>setIsBlown(true)\<close>, so a pending timer is its due time.
\<close>

record app =
  isBlown :: bool
  isBlowing :: bool
  hasWished :: bool
  wishes :: "Wish list"
  inputValue :: jsstring
  wishIdCounter :: nat
  timers :: "nat list"
  now :: nat

definition appInit :: app where
  "appInit = \<lparr>isBlown = False, isBlowing = False, hasWished = False, wishes = [],
     inputValue = [], wishIdCounter = 0, timers = [], now = 0\<rparr>"

definition handleBlow :: "app \<Rightarrow> app" where
  "handleBlow s = s\<lparr>isBlowing := True, timers := timers s @ [now s + 1000]\<rparr>"

definition handleReset :: "app \<Rightarrow> app" where
  "handleReset s = s\<lparr>isBlown := False, isBlowing := False, hasWished := False, wishes := []\<rparr>"

definition handleSendWish :: "app \<Rightarrow> app" where
  "handleSendWish s =
     (if trim (inputValue s) = [] then s
      else
        (let newWish = \<lparr>wish_id = wishIdCounter s, wish_text = inputValue s\<rparr> in
         s\<lparr>wishIdCounter := wishIdCounter s + 1,
           wishes := wishes s @ [newWish],
           inputValue := [],
           hasWished := True\<rparr>))"

text \<open>The \<open>onChange\<close> handler of the text input.\<close>

definition setInputValue :: "jsstring \<Rightarrow> app \<Rightarrow> app" where
  "setInputValue v s = s\<lparr>inputValue := v\<rparr>"

text \<open>
  Time passes by \<open>d\<close> milliseconds: every timer due by then fires (setting \<open>isBlown\<close>) and
  leaves the queue.
\<close>

definition advance :: "nat \<Rightarrow> app \<Rightarrow> app" where
  "advance d s =
     (let t = now s + d in
      s\<lparr>now := t,
        isBlown := (isBlown s \<or> (\<exists>due \<in> set (timers s). due \<le> t)),
        timers := filter (\<lambda>due. \<not> due \<le> t) (timers s)\<rparr>)"

datatype event = Blow | Reset | SendWish | Input jsstring | Advance nat

fun appStep :: "event \<Rightarrow> app \<Rightarrow> app" where
  "appStep Blow s = handleBlow s"
| "appStep Reset s = handleReset s"
| "appStep SendWish s = handleSendWish s"
| "appStep (Input v) s = setInputValue v s"
| "appStep (Advance d) s = advance d s"

fun run :: "event list \<Rightarrow> app \<Rightarrow> app" where
  "run [] s = s"
| "run (e # es) s = run es (appStep e s)"

text \<open>
  The controls that \<open>App\<close> renders: the blow button only with a wish made and neither
  flag set, the reset button only when blown, the wish form only before the first wish.
\<close>

fun offered :: "app \<Rightarrow> event \<Rightarrow> bool" where
  "offered s Blow = (hasWished s \<and> \<not> isBlown s \<and> \<not> isBlowing s)"
| "offered s Reset = isBlown s"
| "offered s SendWish = (\<not> hasWished s)"
| "offered s (Input v) = (\<not> hasWished s)"
| "offered s (Advance d) = True"

text \<open>A trace through the interface: every event is offered when it occurs.\<close>

fun uiTrace :: "event list \<Rightarrow> app \<Rightarrow> bool" where
  "uiTrace [] s = True"
| "uiTrace (e # es) s = (offered s e \<and> uiTrace es (appStep e s))"

text \<open>The lifecycle state of the specification, read off the three flags.\<close>

datatype candleState = Idle | Wishing | Blowing | Blown

definition candle :: "app \<Rightarrow> candleState" where
  "candle s =
     (if isBlown s then Blown else if isBlowing s then Blowing
      else if hasWished s then Wishing else Idle)"

text \<open>A state with a wish made, ready to blow.\<close>

definition wished :: app where
  "wished = run [Input [104, 105], SendWish] appInit"

text \<open>After a blow at time \<open>t0\<close> and without a reset.\<close>

definition blowing :: "nat \<Rightarrow> app \<Rightarrow> bool" where
  "blowing t0 s \<longleftrightarrow>
     isBlowing s \<and> t0 \<le> now s
     \<and> (if now s < t0 + 1000
         then \<not> isBlown s \<and> t0 + 1000 \<in> set (timers s) \<and> (\<forall>d \<in> set (timers s). t0 + 1000 \<le> d)
         else isBlown s)"

text \<open>
  The timer queue on a trace through the interface: empty, or one timer still in the
  future while blowing.
\<close>

definition oneTimer :: "app \<Rightarrow> bool" where
  "oneTimer s \<longleftrightarrow>
     (case timers s of
        [] \<Rightarrow> True
      | [d] \<Rightarrow> now s < d \<and> isBlowing s \<and> \<not> isBlown s
      | _ \<Rightarrow> False)"

text \<open>No timer, neither flag set: stays so as long as no blow occurs.\<close>

definition atRest :: "app \<Rightarrow> bool" where
  "atRest s \<longleftrightarrow> timers s = [] \<and> \<not> isBlown s \<and> \<not> isBlowing s"

section \<open>Properties\<close>

subsection \<open>Easing\<close>

lemma ease_low: "t < 1 / 2 \<Longrightarrow> ease t = 4 * t ^ 3"
  by (simp add: ease_def power3_eq_cube algebra_simps)

lemma ease_high: "1 / 2 \<le> t \<Longrightarrow> ease t = 1 - (2 - 2 * t) ^ 3 / 2"
  by (simp add: ease_def)

lemma ease_mono:
  assumes "0 \<le> a" "a \<le> b" "b \<le> 1"
  shows "ease a \<le> ease b"
proof -
  consider (low) "b < 1 / 2" | (mid) "a < 1 / 2" "1 / 2 \<le> b" | (high) "1 / 2 \<le> a"
    by linarith
  then show ?thesis
  proof cases
    case low
    then have "a < 1 / 2" using assms by linarith
    moreover have "a ^ 3 \<le> b ^ 3"
      using assms by (intro power_mono) auto
    ultimately show ?thesis using low by (simp add: ease_low)
  next
    case mid
    have "a ^ 3 \<le> (1 / 2) ^ 3"
      using assms mid by (intro power_mono) auto
    then have l: "4 * a ^ 3 \<le> 1 / 2" by (simp add: power3_eq_cube)
    have "(2 - 2 * b) ^ 3 \<le> 1 ^ 3"
      using assms mid by (intro power_mono) auto
    then have "1 / 2 \<le> 1 - (2 - 2 * b) ^ 3 / 2" by simp
    with l show ?thesis using mid by (simp add: ease_low ease_high)
  next
    case high
    then have hb: "1 / 2 \<le> b" using assms by linarith
    have "(2 - 2 * b) ^ 3 \<le> (2 - 2 * a) ^ 3"
      using assms by (intro power_mono) auto
    then show ?thesis using high hb by (simp add: ease_high)
  qed
qed

text \<open>
  Claim C9. The easing of the wish flight, \<open>4 t\<^sup>3\<close> below one half and
  \<open>1 - (-2 t + 2)\<^sup>3 / 2\<close> from one half on, is 0 at 0, is 1 at 1, and is monotonically
  non-decreasing on the interval from 0 to 1.
\<close>

theorem C9_ease_endpoints_monotone:
  "ease 0 = 0 \<and> ease 1 = 1 \<and> (\<forall>a b. 0 \<le> a \<and> a \<le> b \<and> b \<le> 1 \<longrightarrow> ease a \<le> ease b)"
proof (intro conjI allI impI)
  show "ease 0 = 0" by (simp add: ease_def)
  show "ease 1 = 1" by (simp add: ease_def)
  fix a b :: real
  assume "0 \<le> a \<and> a \<le> b \<and> b \<le> 1"
  then show "ease a \<le> ease b" by (simp add: ease_mono)
qed

theorem C9_ease_witness:
  "(0::real) \<le> 1 / 4 \<and> (1 / 4 :: real) \<le> 3 / 4 \<and> (3 / 4 :: real) \<le> 1
   \<and> ease (1 / 4) \<le> ease (3 / 4) \<and> ease (1 / 4) = 1 / 16 \<and> ease (3 / 4) = 15 / 16"
proof -
  have "ease (1 / 4) \<le> ease (3 / 4)"
    using C9_ease_endpoints_monotone by simp
  then show ?thesis by (simp add: ease_def power3_eq_cube)
qed

subsection \<open>Target factor\<close>

lemma ratioTarget_spec: "ratioTarget r = specTarget r"
  by (simp add: ratioTarget_def specTarget_def closedRatio_def openRatio_def)

lemma handRatio_spec:
  assumes "20 < length h"
  shows "handRatio h = Inr (specRatio h)"
proof -
  from assms have "h \<noteq> []" by auto
  moreover from assms have "9 < length h" "4 < length h" "8 < length h"
    "12 < length h" "16 < length h" by simp_all
  ultimately show ?thesis using assms
    by (simp add: handRatio_def lmAt_def tips_def specRatio_def meanTipDistance_def
        scaleReference_def Let_def)
qed

lemma targetFactor_hand:
  "20 < length h \<Longrightarrow> targetFactor (Some (h # hs)) = Inr (specTarget (specRatio h))"
  by (simp add: targetFactor_def handRatio_spec ratioTarget_spec)

lemma specTarget_strict_mono:
  assumes "1.3 \<le> r1" "r1 < r2" "r2 \<le> 2.2"
  shows "specTarget r1 < specTarget r2"
  using assms by (auto simp: specTarget_def divide_simps)

lemma specTarget_onto:
  assumes "- 1 \<le> y" "y \<le> 1"
  shows "\<exists>r. 1.3 \<le> r \<and> r \<le> 2.2 \<and> specTarget r = y"
proof (intro exI conjI)
  let ?r = "1.3 + (y + 1) * 0.45 :: real"
  show "1.3 \<le> ?r" using assms by simp
  show "?r \<le> 2.2" using assms by (simp add: field_simps)
  show "specTarget ?r = y" using assms by (auto simp: specTarget_def divide_simps)
qed

text \<open>
  Claim C4. With no hand detected the target factor is 0. For a hand of the detector's
  21 landmarks (any hand on which landmark 20 exists),
  with ratio the mean tip distance over the scale reference (the reference replaced by 1
  when it is 0), the target is \<open>-1\<close> for a ratio of at most 1.3, \<open>+1\<close> for a ratio of
  at least 2.2, and \<open>((ratio - 1.3) / (2.2 - 1.3)) * 2 - 1\<close> in between; on the interval
  from 1.3 to 2.2 this map is strictly increasing, takes the values \<open>-1\<close> and \<open>+1\<close> at
  the endpoints and reaches every value between them.
\<close>

theorem C4_target_factor:
  "targetFactor None = Inr 0 \<and> targetFactor (Some []) = Inr 0
   \<and> (\<forall>h hs. 20 < length h \<longrightarrow>
         targetFactor (Some (h # hs)) = Inr (specTarget (specRatio h)))
   \<and> specTarget 1.3 = - 1 \<and> specTarget 2.2 = 1
   \<and> (\<forall>r1 r2. 1.3 \<le> r1 \<and> r1 < r2 \<and> r2 \<le> 2.2 \<longrightarrow> specTarget r1 < specTarget r2)
   \<and> (\<forall>y. - 1 \<le> y \<and> y \<le> 1 \<longrightarrow> (\<exists>r. 1.3 \<le> r \<and> r \<le> 2.2 \<and> specTarget r = y))"
proof (intro conjI allI impI)
  show "targetFactor None = Inr 0" by (simp add: targetFactor_def)
  show "targetFactor (Some []) = Inr 0" by (simp add: targetFactor_def)
  show "specTarget 1.3 = - 1" by (simp add: specTarget_def)
  show "specTarget 2.2 = 1" by (simp add: specTarget_def)
next
  fix h :: "landmark list" and hs assume "20 < length h"
  then show "targetFactor (Some (h # hs)) = Inr (specTarget (specRatio h))"
    by (rule targetFactor_hand)
next
  fix r1 r2 :: real assume "1.3 \<le> r1 \<and> r1 < r2 \<and> r2 \<le> 2.2"
  then show "specTarget r1 < specTarget r2" by (simp add: specTarget_strict_mono)
next
  fix y :: real assume "- 1 \<le> y \<and> y \<le> 1"
  then show "\<exists>r. 1.3 \<le> r \<and> r \<le> 2.2 \<and> specTarget r = y" using specTarget_onto by blast
qed

lemma sampleHand_ratio: "specRatio sampleHand = 2"
  by (simp add: specRatio_def meanTipDistance_def scaleReference_def sampleHand_def pt_def dist3_def)

theorem C4_witness:
  "length sampleHand = 21 \<and> specRatio sampleHand = 2
   \<and> targetFactor (Some [sampleHand]) = Inr (5 / 9)
   \<and> (1.3::real) \<le> 1.5 \<and> (1.5::real) < 2 \<and> (2::real) \<le> 2.2 \<and> specTarget 1.5 < specTarget 2
   \<and> (- 1 :: real) \<le> 0 \<and> (0::real) \<le> 1 \<and> (\<exists>r. 1.3 \<le> r \<and> r \<le> 2.2 \<and> specTarget r = 0)"
proof -
  have len: "length sampleHand = 21" by (simp add: sampleHand_def)
  then have "20 < length sampleHand" by simp
  then have t: "targetFactor (Some [sampleHand]) = Inr (specTarget (specRatio sampleHand))"
    using C4_target_factor by blast
  have m: "specTarget 1.5 < specTarget 2"
    using C4_target_factor by simp
  have e: "\<exists>r. 1.3 \<le> r \<and> r \<le> 2.2 \<and> specTarget r = 0"
    using C4_target_factor by simp
  have v: "specTarget 2 = 5 / 9" by (simp add: specTarget_def)
  show ?thesis using len t m e v by (simp add: sampleHand_ratio)
qed

subsection \<open>Deadzone\<close>

text \<open>
  Claim C8. A value emitted by a classifier update is never strictly between 0 and 0.1
  in absolute value: it is the deadzone of the smoothed signal, and it is exactly 0
  whenever the smoothed signal is below 0.1 in absolute value.
\<close>

theorem C8_deadzone:
  assumes "predictWebcam video_currentTime results_landmarks st = (st', Inr (Some v))"
  shows "\<not> (0 < \<bar>v\<bar> \<and> \<bar>v\<bar> < 0.1) \<and> currentFactor st' = v
         \<and> (\<exists>target. targetFactor results_landmarks = Inr target
              \<and> v = deadzone (smooth (currentFactor st) target)
              \<and> (\<bar>smooth (currentFactor st) target\<bar> < 0.1 \<longrightarrow> v = 0))"
  using assms
  by (auto simp: predictWebcam_def Let_def deadzone_def split: if_splits sum.splits)

theorem C8_witness:
  "predictWebcam 0 None \<lparr>lastVideoTime = - 1, currentFactor = 0.11\<rparr>
     = (\<lparr>lastVideoTime = 0, currentFactor = 0\<rparr>, Inr (Some 0))
   \<and> \<bar>smooth 0.11 0\<bar> < 0.1"
proof -
  have p: "predictWebcam 0 None \<lparr>lastVideoTime = - 1, currentFactor = 0.11\<rparr>
     = (\<lparr>lastVideoTime = 0, currentFactor = 0\<rparr>, Inr (Some 0))"
    by (simp add: predictWebcam_def targetFactor_def deadzone_def smooth_def Let_def)
  from C8_deadzone [OF p] show ?thesis using p by (simp add: smooth_def)
qed

subsection \<open>Smoothing under a held target\<close>

lemma deadzone_neg: "deadzone (- v) = - deadzone v"
  by (simp add: deadzone_def)

lemma smooth_alt: "smooth s t = (17 * s + 3 * t) / 20"
  by (simp add: smooth_def field_simps)

lemma smooth_neg: "smooth (- s) (- t) = - smooth s t"
  by (simp add: smooth_def field_simps)

lemma heldSignal_neg: "heldSignal (- t) n (- s) = - heldSignal t n s"
  by (induction n) (simp_all add: smooth_neg deadzone_neg)

text \<open>One update with a target of at least 2/3.\<close>

lemma update_high_nonneg:
  assumes "2 / 3 \<le> t" "0 \<le> s"
  shows "deadzone (smooth s t) - t = (17 / 20) * (s - t)" "0 \<le> deadzone (smooth s t)"
  using assms by (auto simp: deadzone_def smooth_alt abs_if field_simps split: if_splits)

lemma update_high_neg:
  assumes "2 / 3 \<le> t" "s < 0"
  shows "deadzone (smooth s t) - t = (17 / 20) * (s - t)
         \<or> deadzone (smooth s t) = 0"
  using assms by (auto simp: deadzone_def smooth_alt abs_if field_simps split: if_splits)

lemma update_zero_le:
  shows "\<bar>deadzone (smooth s 0)\<bar> \<le> (17 / 20) * \<bar>s\<bar>"
    "s \<le> 0 \<Longrightarrow> deadzone (smooth s 0) \<le> 0"
    "0 \<le> s \<Longrightarrow> 0 \<le> deadzone (smooth s 0)"
  by (auto simp: deadzone_def smooth_alt abs_if field_simps split: if_splits)

lemma contract_step:
  fixes dx dy b :: real
  assumes "dy = (17 / 20) * dx" "0 \<le> dx" "dx \<le> b"
  shows "dy * (17 / 20) \<le> (17 / 20) * b" "dy \<le> (17 / 20) * b"
  using assms by linarith+

lemma contract_step_late:
  fixes dx dy b :: real
  assumes "dy = (17 / 20) * dx" "dx * (17 / 20) \<le> b"
  shows "dy * (17 / 20) \<le> (17 / 20) * b"
  using assms by linarith

lemma snap_step:
  fixes dx dy b t x :: real
  assumes "dx = t - x" "dy = t" "x < 0" "dx \<le> b"
  shows "dy * (17 / 20) \<le> (17 / 20) * b"
  using assms by linarith

lemma bound_chain:
  fixes d p q e :: real
  assumes "d * (17 / 20) \<le> p" "p \<le> q" "q < (17 / 20) * e"
  shows "d < e"
  using assms by linarith

lemma held_high_bound:
  assumes "2 / 3 \<le> t"
  shows "\<bar>heldSignal t n s - t\<bar> * (17 / 20) \<le> (17 / 20) ^ n * \<bar>s - t\<bar>
         \<and> (heldSignal t n s < 0 \<longrightarrow> \<bar>heldSignal t n s - t\<bar> \<le> (17 / 20) ^ n * \<bar>s - t\<bar>)"
proof (induction n)
  case 0
  show ?case by simp
next
  case (Suc n)
  let ?x = "heldSignal t n s"
  let ?y = "deadzone (smooth ?x t)"
  let ?b = "(17 / 20) ^ n * \<bar>s - t\<bar>"
  have b: "(17 / 20) ^ Suc n * \<bar>s - t\<bar> = (17 / 20) * ?b" by simp
  from Suc.IH have ih1: "\<bar>?x - t\<bar> * (17 / 20) \<le> ?b" by blast
  have "\<bar>?y - t\<bar> * (17 / 20) \<le> (17 / 20) * ?b
        \<and> (?y < 0 \<longrightarrow> \<bar>?y - t\<bar> \<le> (17 / 20) * ?b)"
  proof (cases "0 \<le> ?x")
    case True
    from update_high_nonneg [OF assms True]
    have e: "?y - t = (17 / 20) * (?x - t)" and p: "0 \<le> ?y" by auto
    have a: "\<bar>?y - t\<bar> = (17 / 20) * \<bar>?x - t\<bar>" unfolding e abs_mult by simp
    have c1: "\<bar>?y - t\<bar> * (17 / 20) \<le> (17 / 20) * ?b"
      by (rule contract_step_late [OF a ih1])
    have c2: "\<not> ?y < 0" using p by linarith
    show ?thesis using c1 c2 by blast
  next
    case False
    then have neg: "?x < 0" by simp
    with Suc.IH have ih: "\<bar>?x - t\<bar> \<le> ?b" by blast
    from update_high_neg [OF assms neg] show ?thesis
    proof
      assume e: "?y - t = (17 / 20) * (?x - t)"
      have a: "\<bar>?y - t\<bar> = (17 / 20) * \<bar>?x - t\<bar>" unfolding e abs_mult by simp
      have c1: "\<bar>?y - t\<bar> * (17 / 20) \<le> (17 / 20) * ?b"
        by (rule contract_step(1) [OF a abs_ge_zero ih])
      have c2: "\<bar>?y - t\<bar> \<le> (17 / 20) * ?b"
        by (rule contract_step(2) [OF a abs_ge_zero ih])
      show ?thesis using c1 c2 by blast
    next
      assume y0: "?y = 0"
      have ax: "\<bar>?x - t\<bar> = t - ?x" using neg assms by linarith
      have ay: "\<bar>?y - t\<bar> = t" unfolding y0 using assms by linarith
      have c1: "\<bar>?y - t\<bar> * (17 / 20) \<le> (17 / 20) * ?b"
        by (rule snap_step [OF ax ay neg ih])
      have c2: "\<not> ?y < 0" using y0 by linarith
      show ?thesis using c1 c2 by blast
    qed
  qed
  then show ?case unfolding heldSignal.simps b .
qed

lemma less_divide_mult:
  fixes x c d :: real
  assumes "0 < d" "x < c / d"
  shows "x * d < c"
  using assms by (simp add: pos_less_divide_eq)

lemma held_zero_bound: "\<bar>heldSignal 0 n s\<bar> \<le> (17 / 20) ^ n * \<bar>s\<bar>"
proof (induction n)
  case 0
  show ?case by simp
next
  case (Suc n)
  have "\<bar>heldSignal 0 (Suc n) s\<bar> \<le> (17 / 20) * \<bar>heldSignal 0 n s\<bar>"
    using update_zero_le(1) [of "heldSignal 0 n s"] by simp
  with Suc show ?case by simp
qed

lemma held_bound:
  assumes "t = 0 \<or> 2 / 3 \<le> \<bar>t\<bar>"
  shows "\<bar>heldSignal t n s - t\<bar> * (17 / 20) \<le> (17 / 20) ^ n * \<bar>s - t\<bar>"
proof -
  consider (zero) "t = 0" | (pos) "2 / 3 \<le> t" | (neg) "2 / 3 \<le> - t"
    using assms by (auto simp: abs_if split: if_splits)
  then show ?thesis
  proof cases
    case zero
    have "0 \<le> \<bar>heldSignal 0 n s\<bar>" by simp
    with held_zero_bound [of n s] show ?thesis unfolding zero by simp
  next
    case pos
    then show ?thesis using held_high_bound by blast
  next
    case neg
    from held_high_bound [OF neg, of n "- s"]
    have "\<bar>heldSignal (- t) n (- s) - (- t)\<bar> * (17 / 20) \<le> (17 / 20) ^ n * \<bar>(- s) - (- t)\<bar>"
      by blast
    moreover have "heldSignal (- t) n (- s) - (- t) = - (heldSignal t n s - t)"
      by (simp add: heldSignal_neg)
    moreover have "\<bar>(- s) - (- t)\<bar> = \<bar>s - t\<bar>" by simp
    ultimately show ?thesis by (simp only: abs_minus)
  qed
qed

lemma update_no_overshoot:
  assumes "t = 0 \<or> 2 / 3 \<le> \<bar>t\<bar>"
  shows "\<bar>deadzone (smooth s t) - t\<bar> \<le> \<bar>s - t\<bar>"
    "s \<le> t \<Longrightarrow> deadzone (smooth s t) \<le> t"
    "t \<le> s \<Longrightarrow> t \<le> deadzone (smooth s t)"
  using assms by (auto simp: deadzone_def smooth_alt abs_if field_simps split: if_splits)

lemma held_converges:
  assumes "t = 0 \<or> 2 / 3 \<le> \<bar>t\<bar>" "0 < \<epsilon>"
  shows "\<exists>N. \<forall>n\<ge>N. \<bar>heldSignal t n s - t\<bar> < \<epsilon>"
proof -
  let ?d = "\<bar>s - t\<bar> + 1"
  have "0 < (17 / 20) * \<epsilon> / ?d" using assms(2) by (intro divide_pos_pos mult_pos_pos) auto
  then obtain N where N: "(17 / 20 :: real) ^ N < (17 / 20) * \<epsilon> / ?d"
    using real_arch_pow_inv [of "(17 / 20) * \<epsilon> / ?d" "(17 / 20)"] by auto
  have "\<bar>heldSignal t n s - t\<bar> < \<epsilon>" if "N \<le> n" for n
  proof -
    have "(17 / 20 :: real) ^ n \<le> (17 / 20) ^ N" using that by (intro power_decreasing) auto
    with N have "(17 / 20 :: real) ^ n < (17 / 20) * \<epsilon> / ?d" by linarith
    moreover have dpos: "0 < ?d" by simp
    ultimately have u: "(17 / 20) ^ n * ?d < (17 / 20) * \<epsilon>"
      by (intro less_divide_mult)
    have m: "(17 / 20) ^ n * \<bar>s - t\<bar> \<le> (17 / 20) ^ n * ?d"
      by (intro mult_left_mono) auto
    show ?thesis
      by (rule bound_chain [OF held_bound [OF assms(1)] m u])
  qed
  then show ?thesis by blast
qed

lemma heldSignal_stuck:
  assumes "\<bar>t\<bar> < 2 / 3"
  shows "heldSignal t n 0 = 0"
  using assms by (induction n) (auto simp: deadzone_def smooth_def abs_if)

text \<open>
  Claim C7 as stated fails. With the target held at 0.5 a signal at 0 is smoothed to
  0.075, which the deadzone snaps back to 0: the signal never leaves 0. With the target
  held at 0.09 a signal at 0.1 is smoothed to 0.0985 and snapped to 0: it crosses the
  target and ends farther from it than it started.
\<close>

theorem C7_counterexample:
  "- 1 \<le> (0::real) \<and> (0::real) \<le> 1
   \<and> (\<forall>n. heldSignal (1 / 2) n 0 = 0)
   \<and> (\<forall>n. \<not> \<bar>heldSignal (1 / 2) n 0 - 1 / 2\<bar> < 1 / 10)
   \<and> heldSignal 0.09 0 0.1 = 0.1 \<and> heldSignal 0.09 1 0.1 = 0
   \<and> \<bar>heldSignal 0.09 0 0.1 - 0.09\<bar> < \<bar>heldSignal 0.09 1 0.1 - 0.09\<bar>
   \<and> heldSignal 0.09 1 0.1 < 0.09 \<and> 0.09 < heldSignal 0.09 0 0.1"
proof -
  have s: "\<forall>n. heldSignal (1 / 2) n 0 = 0"
    by (simp add: heldSignal_stuck)
  have o: "heldSignal 0.09 1 0.1 = 0"
    by (simp add: deadzone_def smooth_def)
  show ?thesis using s o by simp
qed

text \<open>
  Claim C7, amended. When the held target is 0 or at least 2/3 in absolute value, then
  from every initial signal the signal comes within every \<open>\<epsilon> > 0\<close> of the target after
  finitely many updates and stays there, the distance to the target never increases
  from one update to the next, and the signal never crosses to the far side of the
  target.
\<close>

theorem C7_held_target:
  assumes "t = 0 \<or> 2 / 3 \<le> \<bar>t\<bar>"
  shows "(\<forall>\<epsilon>>0. \<exists>N. \<forall>n\<ge>N. \<bar>heldSignal t n s - t\<bar> < \<epsilon>)
    \<and> (\<forall>n. \<bar>heldSignal t (Suc n) s - t\<bar> \<le> \<bar>heldSignal t n s - t\<bar>)
    \<and> (\<forall>n. (heldSignal t n s \<le> t \<longrightarrow> heldSignal t (Suc n) s \<le> t)
           \<and> (t \<le> heldSignal t n s \<longrightarrow> t \<le> heldSignal t (Suc n) s))"
  using held_converges [OF assms] update_no_overshoot [OF assms]
  by simp

theorem C7_held_target_witness:
  "((1::real) = 0 \<or> 2 / 3 \<le> \<bar>1::real\<bar>)
   \<and> heldSignal 1 1 0 = 3 / 20
   \<and> \<bar>heldSignal 1 1 0 - 1\<bar> \<le> \<bar>heldSignal 1 0 0 - 1\<bar>
   \<and> (\<exists>N. \<forall>n\<ge>N. \<bar>heldSignal 1 n 0 - 1\<bar> < 1 / 100)"
proof -
  have h: "(1::real) = 0 \<or> 2 / 3 \<le> \<bar>1::real\<bar>" by simp
  have v: "heldSignal 1 1 0 = 3 / 20" by (simp add: deadzone_def smooth_def)
  from C7_held_target [OF h, of 0] have
    c: "\<forall>\<epsilon>>0. \<exists>N. \<forall>n\<ge>N. \<bar>heldSignal 1 n 0 - 1\<bar> < \<epsilon>" and
    d: "\<forall>n. \<bar>heldSignal 1 (Suc n) 0 - 1\<bar> \<le> \<bar>heldSignal 1 n 0 - 1\<bar>"
    by blast+
  have "(0::real) < 1 / 100" by simp
  with c have c': "\<exists>N. \<forall>n\<ge>N. \<bar>heldSignal 1 n 0 - 1\<bar> < 1 / 100" by blast
  from d have d': "\<bar>heldSignal 1 (Suc 0) 0 - 1\<bar> \<le> \<bar>heldSignal 1 0 0 - 1\<bar>" by blast
  show ?thesis using h v c' d' by simp
qed

subsection \<open>Impact of a wish projectile\<close>

lemma length_impacts: "length (impacts ds w) = length ds"
  by (induction ds arbitrary: w) simp_all

lemma length_wishBefore: "length (wishBefore ds w) = length ds"
  by (induction ds arbitrary: w) simp_all

lemma exploded_wishFrame:
  "exploded w \<Longrightarrow> exploded (fst (wishFrame delta w)) \<and> \<not> snd (wishFrame delta w)"
  by (simp add: wishFrame_def Let_def)

lemma exploded_no_impact: "exploded w \<Longrightarrow> count_list (impacts ds w) True = 0"
  by (induction ds arbitrary: w) (simp_all add: exploded_wishFrame)

lemma exploded_impacts_nth: "exploded w \<Longrightarrow> i < length ds \<Longrightarrow> \<not> impacts ds w ! i"
proof (induction ds arbitrary: w i)
  case Nil
  then show ?case by simp
next
  case (Cons d ds)
  then show ?case by (cases i) (simp_all add: exploded_wishFrame)
qed

lemma fresh_flight:
  "fresh w \<Longrightarrow> progress w < 1 \<Longrightarrow> fresh (fst (wishFrame delta w)) \<and> \<not> snd (wishFrame delta w)"
  by (simp add: fresh_def wishFrame_def)

lemma fresh_impact:
  "fresh w \<Longrightarrow> \<not> progress w < 1 \<Longrightarrow> exploded (fst (wishFrame delta w)) \<and> snd (wishFrame delta w)"
  by (simp add: fresh_def wishFrame_def)

lemma fresh_count_le: "fresh w \<Longrightarrow> count_list (impacts ds w) True \<le> 1"
proof (induction ds arbitrary: w)
  case Nil
  show ?case by simp
next
  case (Cons d ds)
  show ?case
  proof (cases "progress w < 1")
    case True
    with Cons show ?thesis by (simp add: fresh_flight)
  next
    case False
    with Cons.prems show ?thesis by (simp add: fresh_impact exploded_no_impact)
  qed
qed

lemma fresh_finished_count:
  "fresh w \<Longrightarrow> finished (wishAfter ds w) \<Longrightarrow> count_list (impacts ds w) True = 1"
proof (induction ds arbitrary: w)
  case Nil
  then show ?case by (simp add: fresh_def)
next
  case (Cons d ds)
  show ?case
  proof (cases "progress w < 1")
    case True
    with Cons show ?thesis by (simp add: fresh_flight)
  next
    case False
    with Cons.prems show ?thesis by (simp add: fresh_impact exploded_no_impact)
  qed
qed

lemma fresh_impact_iff:
  "fresh w \<Longrightarrow> i < length ds \<Longrightarrow>
   impacts ds w ! i \<longleftrightarrow>
     (1 \<le> progress (wishBefore ds w ! i) \<and> (\<forall>j<i. progress (wishBefore ds w ! j) < 1))"
proof (induction ds arbitrary: w i)
  case Nil
  then show ?case by simp
next
  case (Cons d ds)
  show ?case
  proof (cases i)
    case 0
    with Cons.prems show ?thesis
      by (cases "progress w < 1") (simp_all add: fresh_flight fresh_impact)
  next
    case (Suc k)
    with Cons.prems have k: "k < length ds" by simp
    show ?thesis
    proof (cases "progress w < 1")
      case True
      with Cons.prems have "fresh (fst (wishFrame d w))" by (simp add: fresh_flight)
      from Cons.IH [OF this k] True show ?thesis
        unfolding Suc by (simp add: All_less_Suc2)
    next
      case False
      with Cons.prems have "exploded (fst (wishFrame d w))" by (simp add: fresh_impact)
      from exploded_impacts_nth [OF this k] False show ?thesis
        unfolding Suc by (auto simp: All_less_Suc2)
    qed
  qed
qed

lemma fresh_spawnWish: "fresh spawnWish"
  by (simp add: fresh_def spawnWish_def)

text \<open>
  Claim C5 as stated fails. A frame of 1.25 s advances the progress to 1, yet that frame
  fires no impact: the impact fires on the frame after it. And a projectile that is
  unmounted after three frames of 1/60 s has fired no impact in its whole lifetime.
\<close>

theorem C5_counterexample:
  "progress (wishAfter [5 / 4] spawnWish) = 1
   \<and> impacts [5 / 4] spawnWish = [False]
   \<and> impacts [5 / 4, 1 / 60] spawnWish = [False, True]
   \<and> count_list (impacts [1 / 60, 1 / 60, 1 / 60] spawnWish) True = 0"
  by (simp add: wishFrame_def spawnWish_def)

text \<open>
  Claim C5, amended. Over any sequence of frames of a freshly mounted projectile at most
  one impact fires; the impact fires at a frame exactly when that frame is the first one
  that starts with a progress of at least 1 (the frame after the one that advanced the
  progress to 1 or beyond), so never at a frame that starts with progress below 1 and
  never twice; and a projectile that has reached the finished state has fired exactly
  one impact.
\<close>

theorem C5_impact_once:
  "count_list (impacts ds spawnWish) True \<le> 1
   \<and> (\<forall>i<length ds. impacts ds spawnWish ! i \<longleftrightarrow>
         (1 \<le> progress (wishBefore ds spawnWish ! i)
          \<and> (\<forall>j<i. progress (wishBefore ds spawnWish ! j) < 1)))
   \<and> (finished (wishAfter ds spawnWish) \<longrightarrow> count_list (impacts ds spawnWish) True = 1)"
  using fresh_count_le [OF fresh_spawnWish] fresh_impact_iff [OF fresh_spawnWish]
    fresh_finished_count [OF fresh_spawnWish]
  by blast

theorem C5_impact_once_witness:
  "impacts [5 / 4, 1 / 60, 1 / 60] spawnWish = [False, True, False]
   \<and> map progress (wishBefore [5 / 4, 1 / 60, 1 / 60] spawnWish) = [0, 1, 1]
   \<and> count_list (impacts [5 / 4, 1 / 60, 1 / 60] spawnWish) True \<le> 1
   \<and> finished (wishAfter
        [5 / 4, 0, 0, 0, 0, 0, 0, 0, 0, 0, 0, 0, 0, 0, 0, 0, 0, 0, 0] spawnWish)
   \<and> count_list (impacts
        [5 / 4, 0, 0, 0, 0, 0, 0, 0, 0, 0, 0, 0, 0, 0, 0, 0, 0, 0, 0] spawnWish) True = 1"
proof -
  let ?ds = "[5 / 4, 0, 0, 0, 0, 0, 0, 0, 0, 0, 0, 0, 0, 0, 0, 0, 0, 0, 0] :: real list"
  have e: "impacts [5 / 4, 1 / 60, 1 / 60] spawnWish = [False, True, False]"
    by (simp add: wishFrame_def spawnWish_def)
  have b: "map progress (wishBefore [5 / 4, 1 / 60, 1 / 60] spawnWish) = [0, 1, 1]"
    by (simp add: wishFrame_def spawnWish_def)
  have c: "count_list (impacts [5 / 4, 1 / 60, 1 / 60] spawnWish) True \<le> 1"
    using C5_impact_once [of "[5 / 4, 1 / 60, 1 / 60]"] by blast
  have f: "finished (wishAfter ?ds spawnWish)"
    by (simp add: wishFrame_def spawnWish_def Let_def)
  have o: "count_list (impacts ?ds spawnWish) True = 1"
    using C5_impact_once [of ?ds] f by blast
  show ?thesis using e b c f o by blast
qed

subsection \<open>Confetti integration\<close>

lemma updateParticle_speeds [simp]: "rotationSpeeds (updateParticle dt i st) = rotationSpeeds st"
  by (simp add: updateParticle_def Let_def)

lemma updateParticle_sized: "sized count st \<Longrightarrow> sized count (updateParticle dt i st)"
  by (simp add: sized_def updateParticle_def Let_def)

lemma updateParticle_other:
  assumes "j < i * 3 \<or> i * 3 + 3 \<le> j"
  shows "positions (updateParticle dt i st) ! j = positions st ! j"
    "velocities (updateParticle dt i st) ! j = velocities st ! j"
    "rotations (updateParticle dt i st) ! j = rotations st ! j"
  using assms by (auto simp: updateParticle_def Let_def)

lemma updateParticle_stepped:
  assumes "sized count st" "i < count"
  shows "stepped dt i st (updateParticle dt i st)"
  using assms by (simp add: sized_def stepped_def updateParticle_def Let_def)

lemma fold_speeds [simp]:
  "rotationSpeeds (fold (updateParticle dt) [0..<n] st) = rotationSpeeds st"
  by (induction n) simp_all

lemma fold_sized: "sized count st \<Longrightarrow> sized count (fold (updateParticle dt) [0..<n] st)"
  by (induction n) (simp_all add: updateParticle_sized)

lemma fold_sameFrom: "sameFrom (n * 3) st (fold (updateParticle dt) [0..<n] st)"
proof (induction n)
  case 0
  show ?case by (simp add: sameFrom_def)
next
  case (Suc n)
  show ?case
    unfolding sameFrom_def
  proof (intro allI impI)
    fix j assume j: "Suc n * 3 \<le> j"
    then have o: "j < n * 3 \<or> n * 3 + 3 \<le> j" and g: "n * 3 \<le> j" by simp_all
    from Suc g have
      "positions (fold (updateParticle dt) [0..<n] st) ! j = positions st ! j"
      "velocities (fold (updateParticle dt) [0..<n] st) ! j = velocities st ! j"
      "rotations (fold (updateParticle dt) [0..<n] st) ! j = rotations st ! j"
      by (simp_all add: sameFrom_def)
    then show "positions (fold (updateParticle dt) [0..<Suc n] st) ! j = positions st ! j
      \<and> velocities (fold (updateParticle dt) [0..<Suc n] st) ! j = velocities st ! j
      \<and> rotations (fold (updateParticle dt) [0..<Suc n] st) ! j = rotations st ! j"
      by (simp add: updateParticle_other [OF o])
  qed
qed

lemma stepped_cong:
  assumes "stepped dt i st1 st2" "sameFrom (i * 3) st0 st1"
    "rotationSpeeds st1 = rotationSpeeds st0"
  shows "stepped dt i st0 st2"
  using assms by (simp add: stepped_def sameFrom_def)

lemma stepped_later:
  assumes "stepped dt i st st1" "i < n"
  shows "stepped dt i st (updateParticle dt n st1)"
proof -
  have "i * 3 + 2 < n * 3" using assms(2) by simp
  then have "\<And>k. k \<le> 2 \<Longrightarrow> i * 3 + k < n * 3 \<or> n * 3 + 3 \<le> i * 3 + k" by simp
  then have
    "i * 3 < n * 3 \<or> n * 3 + 3 \<le> i * 3"
    "i * 3 + 1 < n * 3 \<or> n * 3 + 3 \<le> i * 3 + 1"
    "i * 3 + 2 < n * 3 \<or> n * 3 + 3 \<le> i * 3 + 2"
    using assms(2) by simp_all
  then show ?thesis
    using assms(1) by (simp add: stepped_def updateParticle_other)
qed

lemma fold_stepped:
  assumes "sized count st" "n \<le> count" "i < n"
  shows "stepped dt i st (fold (updateParticle dt) [0..<n] st)"
  using assms(2,3)
proof (induction n)
  case 0
  then show ?case by simp
next
  case (Suc n)
  let ?s = "fold (updateParticle dt) [0..<n] st"
  show ?case
  proof (cases "i = n")
    case True
    have "sized count ?s" by (rule fold_sized [OF assms(1)])
    moreover have "n < count" using Suc.prems by simp
    ultimately have "stepped dt n ?s (updateParticle dt n ?s)"
      by (rule updateParticle_stepped)
    then have "stepped dt n st (updateParticle dt n ?s)"
      by (rule stepped_cong) (simp_all add: fold_sameFrom)
    then show ?thesis by (simp add: True)
  next
    case False
    with Suc.prems have "i < n" "n \<le> count" by simp_all
    with Suc.IH have "stepped dt i st ?s" by simp
    then have "stepped dt i st (updateParticle dt n ?s)"
      using \<open>i < n\<close> by (rule stepped_later)
    then show ?thesis by simp
  qed
qed

text \<open>
  Claim C6. One confetti frame with the mesh present clamps the frame delta to
  \<open>dt = min delta 0.1\<close> and then, for every particle of a pool of \<open>count\<close> particles:
  the vertical velocity loses \<open>15 dt\<close> and then every velocity component is multiplied
  by 0.96 (once per step, not scaled by \<open>dt\<close>); the position advances by the updated
  velocity times \<open>dt\<close>; the rotation advances by the angular velocity times \<open>dt\<close>. The
  angular velocities and the sizes of the arrays do not change.
\<close>

theorem C6_confetti_step:
  assumes "sized count st" "i < count"
  shows "stepped (min delta 0.1) i st (confettiFrame True count delta st)
         \<and> rotationSpeeds (confettiFrame True count delta st) = rotationSpeeds st
         \<and> sized count (confettiFrame True count delta st)"
  using assms
  by (simp add: confettiFrame_def Let_def fold_stepped fold_sized)

theorem C6_confetti_step_witness:
  "sized 1 sampleConfetti \<and> (0::nat) < 1
   \<and> stepped (min (1 / 2) 0.1) 0 sampleConfetti (confettiFrame True 1 (1 / 2) sampleConfetti)
   \<and> confettiFrame True 1 (1 / 2) sampleConfetti =
       \<lparr>positions = [12 / 125, 352 / 125, - 12 / 125],
        velocities = [24 / 25, 204 / 25, - 24 / 25],
        rotations = [1 / 10, 1 / 5, 3 / 10], rotationSpeeds = [1, 2, 3]\<rparr>"
proof -
  have s: "sized 1 sampleConfetti" by (simp add: sized_def sampleConfetti_def)
  have l: "(0::nat) < 1" by simp
  have v: "confettiFrame True 1 (1 / 2) sampleConfetti =
       \<lparr>positions = [12 / 125, 352 / 125, - 12 / 125],
        velocities = [24 / 25, 204 / 25, - 24 / 25],
        rotations = [1 / 10, 1 / 5, 3 / 10], rotationSpeeds = [1, 2, 3]\<rparr>"
    by (simp add: confettiFrame_def updateParticle_def sampleConfetti_def Let_def)
  from C6_confetti_step [OF s l, of "1 / 2"]
  have "stepped (min (1 / 2) 0.1) 0 sampleConfetti (confettiFrame True 1 (1 / 2) sampleConfetti)"
    by blast
  with s l v show ?thesis by blast
qed

subsection \<open>Wish submission\<close>

lemma trim_blank:
  assumes "\<forall>c \<in> set s. isWhiteSpace c"
  shows "trim s = []"
proof -
  have d: "dropWhile isWhiteSpace s = []" using assms by (induction s) simp_all
  show ?thesis unfolding trim_def d by simp
qed

text \<open>
  Claim C10. When the pending input text is empty or consists of white space only, the
  submission handler returns the state unchanged: the wishes list (one projectile is
  rendered per entry), the has-wished flag, the wish id counter and the input text all
  stay as they were.
\<close>

theorem C10_blank_wish_rejected:
  assumes "\<forall>c \<in> set (inputValue s). isWhiteSpace c"
  shows "handleSendWish s = s \<and> appStep SendWish s = s"
  using trim_blank [OF assms] by (simp add: handleSendWish_def)

theorem C10_blank_wish_witness:
  "inputValue (setInputValue [32, 9, 160] appInit) = [32, 9, 160]
   \<and> isWhiteSpace 32 \<and> isWhiteSpace 9 \<and> isWhiteSpace 160
   \<and> handleSendWish (setInputValue [32, 9, 160] appInit) = setInputValue [32, 9, 160] appInit
   \<and> handleSendWish appInit = appInit
   \<and> wishes (handleSendWish (setInputValue [32, 104] appInit))
       = [\<lparr>wish_id = 0, wish_text = [32, 104]\<rparr>]"
proof -
  have a: "\<forall>c \<in> set (inputValue (setInputValue [32, 9, 160] appInit)). isWhiteSpace c"
    by (simp add: setInputValue_def isWhiteSpace_def)
  have b: "\<forall>c \<in> set (inputValue appInit). isWhiteSpace c"
    by (simp add: appInit_def)
  have c: "wishes (handleSendWish (setInputValue [32, 104] appInit))
       = [\<lparr>wish_id = 0, wish_text = [32, 104]\<rparr>]"
    by (simp add: handleSendWish_def setInputValue_def appInit_def trim_def isWhiteSpace_def)
  have i: "inputValue (setInputValue [32, 9, 160] appInit) = [32, 9, 160]"
    by (simp add: setInputValue_def)
  have w: "isWhiteSpace 32 \<and> isWhiteSpace 9 \<and> isWhiteSpace 160"
    by (simp add: isWhiteSpace_def)
  from C10_blank_wish_rejected [OF a] C10_blank_wish_rejected [OF b] i w c
  show ?thesis by blast
qed

subsection \<open>Blow and reset\<close>

lemma wished_eq:
  "wished = \<lparr>isBlown = False, isBlowing = False, hasWished = True,
     wishes = [\<lparr>wish_id = 0, wish_text = [104, 105]\<rparr>],
     inputValue = [], wishIdCounter = 1, timers = [], now = 0\<rparr>"
  by (simp add: wished_def appInit_def setInputValue_def handleSendWish_def trim_def
      isWhiteSpace_def)

lemma oneTimer_cases:
  assumes "oneTimer s"
  obtains (none) "timers s = []"
    | (one) d where "timers s = [d]" "now s < d" "isBlowing s" "\<not> isBlown s"
  using assms by (auto simp: oneTimer_def split: list.splits)

lemma oneTimer_step:
  assumes "oneTimer s" "offered s e"
  shows "oneTimer (appStep e s)"
  using assms(1)
proof (cases rule: oneTimer_cases)
  case none
  with assms(2) show ?thesis
    by (cases e) (simp_all add: oneTimer_def handleBlow_def handleReset_def handleSendWish_def
        setInputValue_def advance_def Let_def)
next
  case (one d)
  with assms(2) show ?thesis
    by (cases e) (simp_all add: oneTimer_def handleSendWish_def setInputValue_def advance_def
        Let_def)
qed

lemma oneTimer_run: "oneTimer s \<Longrightarrow> uiTrace es s \<Longrightarrow> oneTimer (run es s)"
  by (induction es arbitrary: s) (simp_all add: oneTimer_step)

lemma oneTimer_init: "oneTimer appInit"
  by (simp add: oneTimer_def appInit_def)

lemma oneTimer_blown: "oneTimer s \<Longrightarrow> isBlown s \<Longrightarrow> timers s = []"
  by (erule oneTimer_cases) simp_all

lemma ui_rest_no_timer:
  assumes "uiTrace es appInit"
    "candle (run es appInit) = Idle \<or> candle (run es appInit) = Wishing"
  shows "timers (run es appInit) = []"
proof -
  have "oneTimer (run es appInit)" by (rule oneTimer_run [OF oneTimer_init assms(1)])
  then show ?thesis
  proof (cases rule: oneTimer_cases)
    case none
    then show ?thesis .
  next
    case (one d)
    with assms(2) show ?thesis by (simp add: candle_def)
  qed
qed

lemma timer_blowing_step:
  "timers s = [] \<or> isBlowing s \<Longrightarrow> e \<noteq> Reset \<Longrightarrow>
   timers (appStep e s) = [] \<or> isBlowing (appStep e s)"
  by (cases e) (auto simp: handleBlow_def handleSendWish_def setInputValue_def advance_def
      Let_def)

lemma timer_blowing_run:
  "timers s = [] \<or> isBlowing s \<Longrightarrow> Reset \<notin> set es \<Longrightarrow>
   timers (run es s) = [] \<or> isBlowing (run es s)"
proof (induction es arbitrary: s)
  case Nil
  then show ?case by simp
next
  case (Cons e es)
  from Cons.prems have "e \<noteq> Reset" "Reset \<notin> set es" by auto
  with Cons.prems(1) Cons.IH show ?case using timer_blowing_step by simp
qed

lemma unreset_rest_no_timer:
  assumes "Reset \<notin> set es"
    "candle (run es appInit) = Idle \<or> candle (run es appInit) = Wishing"
  shows "timers (run es appInit) = []"
proof -
  have "timers appInit = [] \<or> isBlowing appInit" by (simp add: appInit_def)
  from timer_blowing_run [OF this assms(1)] assms(2) show ?thesis
    by (auto simp: candle_def split: if_splits)
qed

lemma blowing_handleBlow:
  "timers s = [] \<Longrightarrow> \<not> isBlown s \<Longrightarrow> blowing (now s) (handleBlow s)"
  by (simp add: blowing_def handleBlow_def)

lemma blowing_step:
  assumes "blowing t0 s" "e \<noteq> Reset"
  shows "blowing t0 (appStep e s)"
proof (cases e)
  case Blow
  with assms show ?thesis by (auto simp: blowing_def handleBlow_def split: if_splits)
next
  case Reset
  with assms show ?thesis by simp
next
  case SendWish
  with assms show ?thesis by (auto simp: blowing_def handleSendWish_def Let_def split: if_splits)
next
  case (Input v)
  with assms show ?thesis by (auto simp: blowing_def setInputValue_def split: if_splits)
next
  case (Advance d)
  show ?thesis
  proof (cases "now s < t0 + 1000")
    case True
    with assms(1) have f: "isBlowing s" "t0 \<le> now s" "\<not> isBlown s"
      "t0 + 1000 \<in> set (timers s)" "\<forall>d \<in> set (timers s). t0 + 1000 \<le> d"
      by (simp_all add: blowing_def)
    show ?thesis
    proof (cases "now s + d < t0 + 1000")
      case True
      with f show ?thesis
        unfolding Advance by (auto simp: blowing_def advance_def Let_def)
    next
      case False
      then have "\<exists>due \<in> set (timers s). due \<le> now s + d"
        using f(4) by (intro bexI [of _ "t0 + 1000"]) simp_all
      with False f show ?thesis
        unfolding Advance by (simp add: blowing_def advance_def Let_def)
    qed
  next
    case False
    with assms(1) show ?thesis
      unfolding Advance by (simp add: blowing_def advance_def Let_def)
  qed
qed

lemma blowing_run:
  "blowing t0 s \<Longrightarrow> Reset \<notin> set es \<Longrightarrow> blowing t0 (run es s)"
proof (induction es arbitrary: s)
  case Nil
  then show ?case by simp
next
  case (Cons e es)
  from Cons.prems have "e \<noteq> Reset" "Reset \<notin> set es" by auto
  with Cons.prems(1) Cons.IH show ?case by (simp add: blowing_step)
qed

lemma blowing_candle:
  "blowing t0 s \<Longrightarrow> candle s = (if now s < t0 + 1000 then Blowing else Blown)"
  by (simp add: blowing_def candle_def split: if_splits)

text \<open>
  Claim C1. A blow accepted at time \<open>t0\<close> in state Idle or Wishing, with no timer pending
  from an earlier blow (by \<open>ui_rest_no_timer\<close> and \<open>unreset_rest_no_timer\<close> none is
  pending in any Idle or Wishing state reached through the interface, or reached without
  a reset), makes the state Blowing at once. Whatever events other than reset follow,
  the state is Blowing, hence not Blown, at every time before \<open>t0 + 1000\<close> ms and Blown at
  every time from \<open>t0 + 1000\<close> ms on: Blown is reached through a full second of Blowing.
\<close>

theorem C1_blow_timing:
  assumes "candle s = Idle \<or> candle s = Wishing" "timers s = []" "Reset \<notin> set es"
  shows "candle (handleBlow s) = Blowing
         \<and> now (handleBlow s) = now s
         \<and> now s \<le> now (run es (handleBlow s))
         \<and> (now (run es (handleBlow s)) < now s + 1000
              \<longrightarrow> candle (run es (handleBlow s)) = Blowing)
         \<and> (now s + 1000 \<le> now (run es (handleBlow s))
              \<longrightarrow> candle (run es (handleBlow s)) = Blown)"
proof -
  have nb: "\<not> isBlown s" using assms(1) by (auto simp: candle_def split: if_splits)
  have b0: "blowing (now s) (handleBlow s)" by (rule blowing_handleBlow [OF assms(2) nb])
  have b: "blowing (now s) (run es (handleBlow s))" by (rule blowing_run [OF b0 assms(3)])
  have "candle (handleBlow s) = Blowing" using nb by (simp add: candle_def handleBlow_def)
  moreover have "now (handleBlow s) = now s" by (simp add: handleBlow_def)
  moreover have "now s \<le> now (run es (handleBlow s))" using b by (simp add: blowing_def)
  ultimately show ?thesis using blowing_candle [OF b] by simp
qed

theorem C1_blow_timing_witness:
  "candle wished = Wishing \<and> timers wished = []
   \<and> candle (handleBlow wished) = Blowing
   \<and> now (run [Advance 400, Blow, Advance 599] (handleBlow wished)) = 999
   \<and> candle (run [Advance 400, Blow, Advance 599] (handleBlow wished)) = Blowing
   \<and> now (run [Advance 400, Blow, Advance 600] (handleBlow wished)) = 1000
   \<and> candle (run [Advance 400, Blow, Advance 600] (handleBlow wished)) = Blown"
proof -
  have c: "candle wished = Idle \<or> candle wished = Wishing"
    by (simp add: wished_eq candle_def)
  have t: "timers wished = []" by (simp add: wished_eq)
  have n0: "now wished = 0" by (simp add: wished_eq)
  have r1: "Reset \<notin> set [Advance 400, Blow, Advance 599]" by simp
  have r2: "Reset \<notin> set [Advance 400, Blow, Advance 600]" by simp
  have n1: "now (run [Advance 400, Blow, Advance 599] (handleBlow wished)) = 999"
    by (simp add: wished_eq handleBlow_def advance_def Let_def)
  have n2: "now (run [Advance 400, Blow, Advance 600] (handleBlow wished)) = 1000"
    by (simp add: wished_eq handleBlow_def advance_def Let_def)
  from C1_blow_timing [OF c t r1] n0 n1
  have a: "candle (handleBlow wished) = Blowing"
    "candle (run [Advance 400, Blow, Advance 599] (handleBlow wished)) = Blowing"
    by simp_all
  from C1_blow_timing [OF c t r2] n0 n2
  have b: "candle (run [Advance 400, Blow, Advance 600] (handleBlow wished)) = Blown"
    by simp
  have w: "candle wished = Wishing" by (simp add: wished_eq candle_def)
  show ?thesis using w t a b n1 n2 by blast
qed

text \<open>
  Claim C2 as stated fails: \<open>handleBlow\<close> has no guard. Called in state Blowing it
  schedules a second timer, and called in state Blown it sets \<open>isBlowing\<close> and schedules
  a timer as well.
\<close>

theorem C2_counterexample:
  "candle (run [Blow] wished) = Blowing
   \<and> timers (run [Blow] wished) = [1000]
   \<and> timers (run [Blow, Blow] wished) = [1000, 1000]
   \<and> timers (run [Blow, Advance 300, Blow] wished) = [1000, 1300]
   \<and> candle (run [Blow, Advance 1000] wished) = Blown
   \<and> timers (run [Blow, Advance 1000] wished) = []
   \<and> timers (run [Blow, Advance 1000, Blow] wished) = [2000]"
  by (simp add: wished_eq handleBlow_def advance_def candle_def Let_def)

text \<open>
  Claim C2, amended. The blow control is offered only with a wish made and neither flag
  set, so it is not offered in state Blowing or Blown; on every trace through the
  interface at most one timer is pending, and one is pending only in state Blowing. The
  handler itself is unguarded: every call sets \<open>isBlowing\<close> and schedules one more timer,
  due 1000 ms after that call.
\<close>

theorem C2_blow_gated:
  assumes "uiTrace es appInit"
  shows "(candle (run es appInit) = Blowing \<or> candle (run es appInit) = Blown
            \<longrightarrow> \<not> offered (run es appInit) Blow)
         \<and> length (timers (run es appInit)) \<le> 1
         \<and> (timers (run es appInit) \<noteq> [] \<longrightarrow> candle (run es appInit) = Blowing)
         \<and> (\<forall>s. isBlowing (handleBlow s) \<and> timers (handleBlow s) = timers s @ [now s + 1000])"
proof -
  let ?s = "run es appInit"
  have o: "oneTimer ?s" by (rule oneTimer_run [OF oneTimer_init assms])
  have 1: "candle ?s = Blowing \<or> candle ?s = Blown \<longrightarrow> \<not> offered ?s Blow"
    by (auto simp: candle_def split: if_splits)
  from o have 2: "length (timers ?s) \<le> 1"
    by (cases rule: oneTimer_cases) simp_all
  from o have 3: "timers ?s \<noteq> [] \<longrightarrow> candle ?s = Blowing"
    by (cases rule: oneTimer_cases) (simp_all add: candle_def)
  have 4: "\<forall>s. isBlowing (handleBlow s) \<and> timers (handleBlow s) = timers s @ [now s + 1000]"
    by (simp add: handleBlow_def)
  from 1 2 3 4 show ?thesis by blast
qed

theorem C2_blow_gated_witness:
  "uiTrace [Input [104, 105], SendWish, Blow, Advance 400] appInit
   \<and> candle (run [Input [104, 105], SendWish, Blow, Advance 400] appInit) = Blowing
   \<and> \<not> offered (run [Input [104, 105], SendWish, Blow, Advance 400] appInit) Blow
   \<and> timers (run [Input [104, 105], SendWish, Blow, Advance 400] appInit) = [1000]
   \<and> length (timers (run [Input [104, 105], SendWish, Blow, Advance 400] appInit)) \<le> 1"
proof -
  let ?es = "[Input [104, 105], SendWish, Blow, Advance 400]"
  have u: "uiTrace ?es appInit"
    by (simp add: appInit_def setInputValue_def handleSendWish_def trim_def isWhiteSpace_def
        handleBlow_def advance_def Let_def)
  have t: "timers (run ?es appInit) = [1000]"
    by (simp add: appInit_def setInputValue_def handleSendWish_def trim_def isWhiteSpace_def
        handleBlow_def advance_def Let_def)
  from C2_blow_gated [OF u] t have
    "candle (run ?es appInit) = Blowing" "\<not> offered (run ?es appInit) Blow"
    "length (timers (run ?es appInit)) \<le> 1"
    by simp_all
  with u t show ?thesis by blast
qed

lemma atRest_step: "atRest s \<Longrightarrow> e \<noteq> Blow \<Longrightarrow> atRest (appStep e s)"
  by (cases e) (simp_all add: atRest_def handleReset_def handleSendWish_def setInputValue_def
      advance_def Let_def)

lemma atRest_run: "atRest s \<Longrightarrow> Blow \<notin> set es \<Longrightarrow> atRest (run es s)"
proof (induction es arbitrary: s)
  case Nil
  then show ?case by simp
next
  case (Cons e es)
  from Cons.prems have "e \<noteq> Blow" "Blow \<notin> set es" by auto
  with Cons.prems(1) Cons.IH show ?case by (simp add: atRest_step)
qed

lemma unwished_step:
  "\<not> hasWished s \<Longrightarrow> e \<noteq> SendWish \<Longrightarrow> \<not> hasWished (appStep e s)"
  by (cases e) (simp_all add: handleBlow_def handleReset_def setInputValue_def advance_def
      Let_def)

lemma unwished_run: "\<not> hasWished s \<Longrightarrow> SendWish \<notin> set es \<Longrightarrow> \<not> hasWished (run es s)"
proof (induction es arbitrary: s)
  case Nil
  then show ?case by simp
next
  case (Cons e es)
  from Cons.prems have "e \<noteq> SendWish" "SendWish \<notin> set es" by auto
  with Cons.prems(1) Cons.IH show ?case by (simp add: unwished_step)
qed

text \<open>
  Claim C3 as stated fails: \<open>handleReset\<close> cancels nothing. With a blow at 0 ms and a
  reset at 500 ms the state is Idle after the reset, and the timer of the blow still
  fires at 1000 ms and makes the state Blown.
\<close>

theorem C3_counterexample:
  "candle (run [Blow, Advance 500] wished) = Blowing
   \<and> candle (run [Blow, Advance 500, Reset] wished) = Idle
   \<and> timers (run [Blow, Advance 500, Reset] wished) = [1000]
   \<and> now (run [Blow, Advance 500, Reset, Advance 500] wished) = 1000
   \<and> candle (run [Blow, Advance 500, Reset, Advance 500] wished) = Blown"
  by (simp add: wished_eq handleBlow_def handleReset_def advance_def candle_def Let_def)

text \<open>
  Claim C3, amended. Reset does not cancel the timer; instead the reset control is
  offered only in state Blown, that is after the timer has fired. On every trace through
  the interface no timer is pending when reset is offered; the reset leaves the state
  Idle with no timer pending, and until a new blow event the state is never Blowing or
  Blown again: it stays Idle (or becomes Wishing once a wish is sent).
\<close>

theorem C3_reset_after_timer:
  assumes "uiTrace es0 appInit" "offered (run es0 appInit) Reset" "Blow \<notin> set es"
  shows "timers (run es0 appInit) = []
         \<and> candle (handleReset (run es0 appInit)) = Idle
         \<and> timers (run es (handleReset (run es0 appInit))) = []
         \<and> (candle (run es (handleReset (run es0 appInit))) = Idle
             \<or> candle (run es (handleReset (run es0 appInit))) = Wishing)
         \<and> (SendWish \<notin> set es \<longrightarrow> candle (run es (handleReset (run es0 appInit))) = Idle)"
proof -
  let ?s = "run es0 appInit"
  let ?r = "handleReset ?s"
  have o: "oneTimer ?s" by (rule oneTimer_run [OF oneTimer_init assms(1)])
  have b: "isBlown ?s" using assms(2) by simp
  have t: "timers ?s = []" by (rule oneTimer_blown [OF o b])
  have i: "candle ?r = Idle" by (simp add: candle_def handleReset_def)
  have "atRest ?r" using t by (simp add: atRest_def handleReset_def)
  then have a: "atRest (run es ?r)" using assms(3) by (rule atRest_run)
  have w: "\<not> hasWished ?r" by (simp add: handleReset_def)
  have 3: "timers (run es ?r) = []" using a by (simp add: atRest_def)
  have 4: "candle (run es ?r) = Idle \<or> candle (run es ?r) = Wishing"
    using a by (simp add: atRest_def candle_def)
  have 5: "SendWish \<notin> set es \<longrightarrow> candle (run es ?r) = Idle"
    using a unwished_run [OF w, of es] by (auto simp: atRest_def candle_def)
  from t i 3 4 5 show ?thesis by blast
qed

theorem C3_reset_after_timer_witness:
  "uiTrace [Input [104, 105], SendWish, Blow, Advance 1000] appInit
   \<and> offered (run [Input [104, 105], SendWish, Blow, Advance 1000] appInit) Reset
   \<and> Blow \<notin> set [Advance 5000]
   \<and> SendWish \<notin> set [Advance 5000]
   \<and> candle (run [Input [104, 105], SendWish, Blow, Advance 1000] appInit) = Blown
   \<and> timers (run [Input [104, 105], SendWish, Blow, Advance 1000] appInit) = []
   \<and> candle (run [Advance 5000]
        (handleReset (run [Input [104, 105], SendWish, Blow, Advance 1000] appInit))) = Idle"
proof -
  let ?es0 = "[Input [104, 105], SendWish, Blow, Advance 1000]"
  have u: "uiTrace ?es0 appInit"
    by (simp add: appInit_def setInputValue_def handleSendWish_def trim_def isWhiteSpace_def
        handleBlow_def advance_def Let_def)
  have b: "candle (run ?es0 appInit) = Blown"
    by (simp add: appInit_def setInputValue_def handleSendWish_def trim_def isWhiteSpace_def
        handleBlow_def advance_def candle_def Let_def)
  then have r: "offered (run ?es0 appInit) Reset"
    by (simp add: candle_def split: if_splits)
  have n: "Blow \<notin> set [Advance 5000]" "SendWish \<notin> set [Advance 5000]" by simp_all
  from C3_reset_after_timer [OF u r n(1)] n(2) have
    "timers (run ?es0 appInit) = []"
    "candle (run [Advance 5000] (handleReset (run ?es0 appInit))) = Idle"
    by blast+
  with u r n b show ?thesis by blast
qed

end
